theory Spec2Isabelle
  imports Main "HOL-Library.Word"
begin

section \<open>ESP32 pinhole camera firmware (main.cpp)\<close>

text \<open>
  The firmware is a single translation unit with three functions: \<open>flashBuiltinLed\<close>,
  \<open>setup\<close> and \<open>loop\<close>. The embedding threads an explicit device state through them.
  Every call into a driver or library (GPIO, timer, camera, SD card, EEPROM, push button,
  deep sleep) is recorded as an event in a trace; the results those calls hand back are
  inputs of the model (records \<open>benv\<close> and \<open>env\<close>). Serial output is diagnostic text only
  and is left out.
\<close>

subsection \<open>Compile-time constants\<close>

definition FLASH_MILLIS :: "8 word" where
  "FLASH_MILLIS = 200"

definition FAIL_MILLIS :: nat where
  "FAIL_MILLIS = 1000"

definition WAVE_FLASH_COUNT :: "8 word" where
  "WAVE_FLASH_COUNT = 5"

definition SNAP_FLASH_COUNT :: "8 word" where
  "SNAP_FLASH_COUNT = 1"

definition CAMI_FLASH_COUNT :: "8 word" where
  "CAMI_FLASH_COUNT = 2"

definition SDMI_FLASH_COUNT :: "8 word" where
  "SDMI_FLASH_COUNT = 3"

definition SDCI_FLASH_COUNT :: "8 word" where
  "SDCI_FLASH_COUNT = 4"

definition AWAKE_MILLIS :: "32 word" where
  "AWAKE_MILLIS = 300000"

subsection \<open>Device state and observable events\<close>

datatype level = LOW | HIGH

datatype framesize = FRAMESIZE_UXGA | FRAMESIZE_SVGA

text \<open>
  One constructor per external call of the firmware. \<open>DigitalWrite\<close> always addresses
  \<open>LED_BUILTIN\<close>, the only pin the firmware writes; the LED is active low, so \<open>LOW\<close>
  switches it on. \<open>FbGet ok\<close> and \<open>FileOpen path ok\<close> carry whether the call delivered a
  frame buffer or a valid file.
\<close>

datatype event =
    PinModeOutput
  | DigitalWrite level
  | Delay nat
  | CameraInit framesize nat nat
  | SdBegin
  | SdCardType
  | EepromBegin
  | EepromRead
  | ShutterBegin
  | FbGet bool
  | FileOpen string bool
  | FileWrite string nat
  | FileClose string
  | EepromWrite "16 word"
  | EepromCommit
  | FbReturn
  | EepromEnd
  | DeepSleep

datatype phase = Running | Asleep

text \<open>
  \<open>imageCtr\<close> is the global \<open>uint16_t\<close>; \<open>clickedMillis\<close> is the function-static
  \<open>unsigned long\<close> of \<open>loop\<close> (32 bits on the ESP32) and \<open>clickedInit\<close> its
  initialisation guard. \<open>eeBuf\<close> is the RAM copy the EEPROM library reads and writes,
  \<open>eeFlash\<close> the committed value that survives a reset. \<open>sd\<close> is the content of the card.
\<close>

record state =
  imageCtr :: "16 word"
  clickedMillis :: "32 word"
  clickedInit :: bool
  eeBuf :: "16 word"
  eeFlash :: "16 word"
  sd :: "string \<rightharpoonup> 8 word list"
  phase :: phase
  trace :: "event list"

definition emit :: "event \<Rightarrow> state \<Rightarrow> state" where
  "emit e s = s\<lparr>trace := trace s @ [e]\<rparr>"

definition delay :: "nat \<Rightarrow> state \<Rightarrow> state" where
  "delay ms s = emit (Delay ms) s"

definition digitalWrite :: "level \<Rightarrow> state \<Rightarrow> state" where
  "digitalWrite l s = emit (DigitalWrite l) s"

subsection \<open>The durable store\<close>

text \<open>
  Modelled from the spec: the EEPROM library is an external collaborator that the spec
  describes by its interface \<open>read\<close>, \<open>write\<close>, \<open>commit\<close>. \<open>begin\<close> loads the RAM copy
  from the committed value, \<open>readUShort\<close> and \<open>writeUShort\<close> work on the RAM copy,
  \<open>commit\<close> makes the RAM copy the committed value, and \<open>end\<close> commits what is pending
  and closes the store.
\<close>

definition eeprom_begin :: "state \<Rightarrow> state" where
  "eeprom_begin s = emit EepromBegin (s\<lparr>eeBuf := eeFlash s\<rparr>)"

definition eeprom_writeUShort :: "16 word \<Rightarrow> state \<Rightarrow> state" where
  "eeprom_writeUShort v s = emit (EepromWrite v) (s\<lparr>eeBuf := v\<rparr>)"

definition eeprom_commit :: "state \<Rightarrow> state" where
  "eeprom_commit s = emit EepromCommit (s\<lparr>eeFlash := eeBuf s\<rparr>)"

definition eeprom_end :: "state \<Rightarrow> state" where
  "eeprom_end s = emit EepromEnd (s\<lparr>eeFlash := eeBuf s\<rparr>)"

subsection \<open>flashBuiltinLed\<close>

text \<open>
  The \<open>for\<close> loop of \<open>flashBuiltinLed\<close>, with its \<open>uint8_t\<close> index. The test
  \<open>i + 1 < flashCount\<close> is evaluated in \<open>int\<close> after integral promotion, so it does not
  wrap.
\<close>

function flash_loop :: "8 word \<Rightarrow> 8 word \<Rightarrow> 8 word \<Rightarrow> state \<Rightarrow> state" where
  "flash_loop i flashCount flashLen s =
     (if i < flashCount then
        (let s1 = digitalWrite LOW s;
             s2 = delay (unat flashLen) s1;
             s3 = digitalWrite HIGH s2;
             s4 = (if unat i + 1 < unat flashCount then delay (unat flashLen) s3 else s3)
         in flash_loop (i + 1) flashCount flashLen s4)
      else s)"
  by pat_completeness auto
termination
proof (relation "measure (\<lambda>(i, flashCount, flashLen, s). unat flashCount - unat i)")
  show "wf (measure (\<lambda>(i, flashCount, flashLen, s). unat flashCount - unat i))"
    by simp
next
  fix i flashCount flashLen :: "8 word" and s s1 s2 s3 s4 :: state
  assume lt: "i < flashCount"
  then have "unat i < unat flashCount"
    by (simp add: word_less_nat_alt)
  moreover from lt have "unat (i + 1) = unat i + 1"
    by (metis (no_types, lifting) add.commute add_0 inc_i inc_le
        unat_plus_simple unsigned_0 unsigned_1 word_gt_0)
  ultimately show "((i + 1, flashCount, flashLen, s4), (i, flashCount, flashLen, s))
      \<in> measure (\<lambda>(i, flashCount, flashLen, s). unat flashCount - unat i)"
    by simp
qed

declare flash_loop.simps [simp del]

definition flashBuiltinLed :: "8 word \<Rightarrow> 8 word \<Rightarrow> state \<Rightarrow> state" where
  "flashBuiltinLed flashCount flashLen s = flash_loop 0 flashCount flashLen s"

text \<open>The call \<open>flashBuiltinLed()\<close> with both default arguments.\<close>

definition flashBuiltinLed_default :: "state \<Rightarrow> state" where
  "flashBuiltinLed_default s = flashBuiltinLed WAVE_FLASH_COUNT FLASH_MILLIS s"

subsection \<open>Bring-up: setup\<close>

text \<open>
  What the drivers answer during bring-up: \<open>psramFound()\<close>, whether
  \<open>esp_camera_init\<close> returned \<open>ESP_OK\<close>, whether \<open>SD_MMC.begin\<close> succeeded and
  whether \<open>SD_MMC.cardType()\<close> differs from \<open>CARD_NONE\<close>.
\<close>

record benv =
  psram :: bool
  camera_init_ok :: bool
  sd_mount_ok :: bool
  card_present :: bool

text \<open>
  The body of each \<open>while (true)\<close> loop of \<open>setup\<close>, and the loop itself. The loop has
  no exit, so it is a partial function whose value \<open>None\<close> means that control never
  comes back. \<open>fault_iter k n s\<close> is the state after \<open>k\<close> passes through the body.
\<close>

definition fault_body :: "8 word \<Rightarrow> state \<Rightarrow> state" where
  "fault_body n s = delay FAIL_MILLIS (flashBuiltinLed n FLASH_MILLIS s)"

partial_function (option) fault_loop :: "8 word \<Rightarrow> state \<Rightarrow> state option" where
  "fault_loop n s = fault_loop n (fault_body n s)"

fun fault_iter :: "nat \<Rightarrow> 8 word \<Rightarrow> state \<Rightarrow> state" where
  "fault_iter 0 n s = s"
| "fault_iter (Suc k) n s = fault_iter k n (fault_body n s)"

text \<open>
  The stages of \<open>setup\<close>, each ending with the call whose result is tested next,
  and \<open>setup\<close> itself (named \<open>arduino_setup\<close>, as \<open>setup\<close> is a keyword of Isabelle).
\<close>

definition bringup_camera :: "benv \<Rightarrow> state \<Rightarrow> state" where
  "bringup_camera b s =
     (let s1 = emit PinModeOutput s;
          s2 = digitalWrite HIGH s1
      in if psram b then emit (CameraInit FRAMESIZE_UXGA 10 2) s2
         else emit (CameraInit FRAMESIZE_SVGA 12 1) s2)"

definition bringup_mount :: "state \<Rightarrow> state" where
  "bringup_mount s = emit SdBegin s"

definition bringup_card :: "state \<Rightarrow> state" where
  "bringup_card s = emit SdCardType s"

definition bringup_finish :: "state \<Rightarrow> state" where
  "bringup_finish s =
     (let s1 = eeprom_begin s;
          s2 = emit EepromRead (s1\<lparr>imageCtr := eeBuf s1\<rparr>);
          s3 = emit ShutterBegin s2
      in flashBuiltinLed_default s3)"

definition arduino_setup :: "benv \<Rightarrow> state \<Rightarrow> state option" where
  "arduino_setup b s =
     (let s1 = bringup_camera b s in
      if \<not> camera_init_ok b then fault_loop CAMI_FLASH_COUNT s1
      else
        let s2 = bringup_mount s1 in
        if \<not> sd_mount_ok b then fault_loop SDMI_FLASH_COUNT s2
        else
          let s3 = bringup_card s2 in
          if \<not> card_present b then fault_loop SDCI_FLASH_COUNT s3
          else Some (bringup_finish s3))"

text \<open>
  The device at power-on or reset: RAM is fresh, the committed counter and the card hold
  what they held before.
\<close>

definition power_on :: "16 word \<Rightarrow> (string \<rightharpoonup> 8 word list) \<Rightarrow> state" where
  "power_on c files =
     \<lparr>imageCtr = 0, clickedMillis = 0, clickedInit = False, eeBuf = 0, eeFlash = c,
      sd = files, phase = Running, trace = []\<rparr>"

subsection \<open>File names\<close>

text \<open>
  Modelled from the spec: \<open>String(int)\<close> of the Arduino core is not part of the sources;
  the spec says the number is written in decimal with no leading zeros.
\<close>

definition digit :: "nat \<Rightarrow> char" where
  "digit d = ''0123456789'' ! d"

fun decimal :: "nat \<Rightarrow> string" where
  "decimal n = (if n < 10 then [digit n] else decimal (n div 10) @ [digit (n mod 10)])"

declare decimal.simps [simp del]

definition image_path :: "16 word \<Rightarrow> string" where
  "image_path c = ''/Image'' @ decimal (unat c) @ ''.jpg''"

subsection \<open>The main cycle: loop\<close>

text \<open>
  What one call of \<open>loop\<close> reads from its surroundings: the three \<open>millis()\<close> readings
  (static initialiser, after a click, idle test), \<open>shutter.clicked()\<close>, the frame buffer
  of \<open>esp_camera_fb_get\<close> (\<open>None\<close> for a null pointer), whether \<open>SD_MMC.open\<close> gave a
  valid file, and the byte count \<open>file.write\<close> returned.
\<close>

record env =
  millis_init :: "32 word"
  clicked :: bool
  millis_click :: "32 word"
  fb :: "8 word list option"
  open_ok :: bool
  written :: nat
  millis_check :: "32 word"

datatype 'a flow = Return 'a | Next 'a

definition static_init :: "env \<Rightarrow> state \<Rightarrow> state" where
  "static_init e s =
     (if clickedInit s then s
      else s\<lparr>clickedMillis := millis_init e, clickedInit := True\<rparr>)"

text \<open>
  The body of \<open>if (shutter.clicked())\<close>. \<open>Return\<close> is a \<open>return\<close> statement of
  \<open>loop\<close>; \<open>Next\<close> falls through to the idle test. \<open>FILE_WRITE\<close> creates the file or
  truncates the one already there.
\<close>

definition capture :: "env \<Rightarrow> state \<Rightarrow> state flow" where
  "capture e s =
     (let s1 = s\<lparr>clickedMillis := millis_click e\<rparr> in
      case fb e of
        None \<Rightarrow> Return (emit (FbGet False) s1)
      | Some buf \<Rightarrow>
          let s2 = emit (FbGet True) s1;
              s3 = s2\<lparr>imageCtr := imageCtr s2 + 1\<rparr>;
              path = image_path (imageCtr s3)
          in if \<not> open_ok e then Return (emit (FileOpen path False) s3)
             else
               let s4 = emit (FileOpen path True) (s3\<lparr>sd := (sd s3)(path \<mapsto> [])\<rparr>);
                   s5 = emit (FileWrite path (length buf))
                          (s4\<lparr>sd := (sd s4)(path \<mapsto> take (written e) buf)\<rparr>);
                   s6 = eeprom_writeUShort (imageCtr s5) s5;
                   s7 = eeprom_commit s6;
                   s8 = flashBuiltinLed SNAP_FLASH_COUNT FLASH_MILLIS s7;
                   s9 = emit (FileClose path) s8
               in Next (emit FbReturn s9))"

definition deep_sleep :: "state \<Rightarrow> state" where
  "deep_sleep s = emit DeepSleep (s\<lparr>phase := Asleep\<rparr>)"

definition idle_check :: "env \<Rightarrow> state \<Rightarrow> state" where
  "idle_check e s =
     (if AWAKE_MILLIS < millis_check e - clickedMillis s
      then deep_sleep (flashBuiltinLed_default (eeprom_end s))
      else s)"

definition loop :: "env \<Rightarrow> state \<Rightarrow> state" where
  "loop e s =
     (let s0 = static_init e s in
      if clicked e then
        (case capture e s0 of
           Return s1 \<Rightarrow> s1
         | Next s1 \<Rightarrow> idle_check e s1)
      else idle_check e s0)"

text \<open>
  The Arduino core calls \<open>loop\<close> again and again; after \<open>esp_deep_sleep_start\<close> nothing
  runs any more.
\<close>

fun run :: "env list \<Rightarrow> state \<Rightarrow> state" where
  "run [] s = s"
| "run (e # es) s = (if phase s = Asleep then s else run es (loop e s))"

text \<open>The whole power-on session: bring-up, then the main cycle.\<close>

definition firmware :: "benv \<Rightarrow> env list \<Rightarrow> state \<Rightarrow> state option" where
  "firmware b es s = (case arduino_setup b s of None \<Rightarrow> None | Some s' \<Rightarrow> Some (run es s'))"

text \<open>
  What the device has done by the time a loop without exit has been passed \<open>k\<close> times.
  \<open>arduino_setup_fuel k\<close> is \<open>setup\<close> again, statement by statement, with each
  \<open>while (true)\<close> loop cut off after \<open>k\<close> passes through its body: \<open>Looping s\<close> says
  that control is still inside the loop and \<open>s\<close> is the state reached, \<open>Returned s\<close>
  that \<open>setup\<close> has returned in state \<open>s\<close>. \<open>firmware_fuel\<close> is the session on top
  of it: the main cycle runs only once \<open>setup\<close> has returned.
\<close>

datatype 'a progress = Returned 'a | Looping 'a

definition arduino_setup_fuel :: "nat \<Rightarrow> benv \<Rightarrow> state \<Rightarrow> state progress" where
  "arduino_setup_fuel k b s =
     (let s1 = bringup_camera b s in
      if \<not> camera_init_ok b then Looping (fault_iter k CAMI_FLASH_COUNT s1)
      else
        let s2 = bringup_mount s1 in
        if \<not> sd_mount_ok b then Looping (fault_iter k SDMI_FLASH_COUNT s2)
        else
          let s3 = bringup_card s2 in
          if \<not> card_present b then Looping (fault_iter k SDCI_FLASH_COUNT s3)
          else Returned (bringup_finish s3))"

definition firmware_fuel :: "nat \<Rightarrow> benv \<Rightarrow> env list \<Rightarrow> state \<Rightarrow> state progress" where
  "firmware_fuel k b es s =
     (case arduino_setup_fuel k b s of
        Looping s' \<Rightarrow> Looping s'
      | Returned s' \<Rightarrow> Returned (run es s'))"

subsection \<open>Specification of the flash pattern\<close>

text \<open>
  The pattern as the specification words it: the indicator is switched on for \<open>d\<close>
  milliseconds and then off, \<open>n\<close> times, with a pause of \<open>d\<close> milliseconds after every
  flash but the last.
\<close>

fun flash_spec :: "nat \<Rightarrow> nat \<Rightarrow> event list" where
  "flash_spec 0 d = []"
| "flash_spec (Suc n) d =
     [DigitalWrite LOW, Delay d, DigitalWrite HIGH] @
     (if n = 0 then [] else Delay d # flash_spec n d)"

subsection \<open>Reading the trace\<close>

text \<open>The files created so far, in the order of their creation.\<close>

fun created_files :: "event list \<Rightarrow> string list" where
  "created_files [] = []"
| "created_files (FileOpen p True # tr) = p # created_files tr"
| "created_files (ev # tr) = created_files tr"

text \<open>
  The steps of a capture that runs to its end, for the new counter value \<open>c\<close> and a frame
  of \<open>len\<close> bytes, in the order of section 4.3 of the specification.
\<close>

definition shot_events :: "16 word \<Rightarrow> nat \<Rightarrow> event list" where
  "shot_events c len =
     [FbGet True, FileOpen (image_path c) True, FileWrite (image_path c) len,
      EepromWrite c, EepromCommit,
      DigitalWrite LOW, Delay 200, DigitalWrite HIGH,
      FileClose (image_path c), FbReturn]"

text \<open>
  The paths of \<open>n\<close> captures in a row, the first one taken when the counter is \<open>c\<close>:
  the path for \<open>c + 1\<close>, then for \<open>c + 2\<close>, up to \<open>c + n\<close>, the sums being those of
  the 16-bit counter.
\<close>

definition image_names :: "16 word \<Rightarrow> nat \<Rightarrow> string list" where
  "image_names c n = map (\<lambda>i. image_path (c + of_nat i)) [1..<n + 1]"

text \<open>One group of a diagnostic fault loop: \<open>n\<close> flashes, then the pause of one second.\<close>

definition fault_group :: "nat \<Rightarrow> event list" where
  "fault_group n = flash_spec n 200 @ [Delay 1000]"

text \<open>The sleep transition: store shut down, the wave of five flashes, deep sleep.\<close>

definition sleep_events :: "event list" where
  "sleep_events = EepromEnd # flash_spec 5 200 @ [DeepSleep]"

text \<open>
  The last reading of \<open>millis()\<close> that an iteration takes: the one of the idle test or,
  when the iteration returns before the test, the one taken at the click.
\<close>

definition last_millis :: "env \<Rightarrow> 32 word" where
  "last_millis e =
     (if clicked e \<and> (fb e = None \<or> \<not> open_ok e) then millis_click e else millis_check e)"

text \<open>An iteration in which the shutter was clicked and the camera delivered a frame.\<close>

definition acquired :: "env \<Rightarrow> bool" where
  "acquired e = (clicked e \<and> fb e \<noteq> None)"

subsection \<open>Concrete inputs\<close>

definition benv_ok :: benv where
  "benv_ok = \<lparr>psram = True, camera_init_ok = True, sd_mount_ok = True, card_present = True\<rparr>"

definition benv_no_camera :: benv where
  "benv_no_camera = benv_ok\<lparr>camera_init_ok := False\<rparr>"

definition benv_no_mount :: benv where
  "benv_no_mount = benv_ok\<lparr>sd_mount_ok := False\<rparr>"

definition benv_no_card :: benv where
  "benv_no_card = benv_ok\<lparr>card_present := False\<rparr>"

definition demo_frame :: "8 word list" where
  "demo_frame = [255, 216, 255, 217]"

definition demo_card :: "string \<rightharpoonup> 8 word list" where
  "demo_card = [''/Image0.jpg'' \<mapsto> [1, 2, 3]]"

definition env_idle :: env where
  "env_idle = \<lparr>millis_init = 2000, clicked = False, millis_click = 0, fb = None,
     open_ok = False, written = 0, millis_check = 2001\<rparr>"

definition env_late :: env where
  "env_late = env_idle\<lparr>millis_check := 302001\<rparr>"

definition env_null :: env where
  "env_null = \<lparr>millis_init = 2000, clicked = True, millis_click = 5000, fb = None,
     open_ok = False, written = 0, millis_check = 5001\<rparr>"

definition env_nofile :: env where
  "env_nofile = env_null\<lparr>fb := Some demo_frame\<rparr>"

definition env_shot :: env where
  "env_shot = env_null\<lparr>fb := Some demo_frame, open_ok := True, written := 4,
     millis_check := 5300\<rparr>"

text \<open>The state in which a bring-up without faults hands over to the main cycle.\<close>

definition ready :: "16 word \<Rightarrow> (string \<rightharpoonup> 8 word list) \<Rightarrow> state" where
  "ready c files =
     bringup_finish (bringup_card (bringup_mount (bringup_camera benv_ok (power_on c files))))"

section \<open>Properties\<close>

subsection \<open>The indicator\<close>

lemma unat_succ_lt8: "(i::8 word) < c \<Longrightarrow> unat (i + 1) = unat i + 1"
  by (metis (no_types, lifting) add.commute add_0 inc_i inc_le
        unat_plus_simple unsigned_0 unsigned_1 word_gt_0)

lemma flash_loop_trace:
  "unat i \<le> unat c \<Longrightarrow>
   flash_loop i c d s = s\<lparr>trace := trace s @ flash_spec (unat c - unat i) (unat d)\<rparr>"
proof (induction i c d s rule: flash_loop.induct)
  case (1 i c d s)
  show ?case
  proof (cases "i < c")
    case False
    with "1.prems" have "unat c - unat i = 0"
      by (simp add: word_less_nat_alt)
    with False show ?thesis
      by (subst flash_loop.simps) simp
  next
    case True
    then have lt: "unat i < unat c"
      by (simp add: word_less_nat_alt)
    have suc: "unat (i + 1) = unat i + 1"
      using True by (rule unat_succ_lt8)
    obtain m where m: "unat c - unat i = Suc m" and m': "unat c - unat (i + 1) = m"
      using lt suc by (cases "unat c - unat i") auto
    have le: "unat (i + 1) \<le> unat c"
      using lt suc by simp
    define s4 where "s4 =
      (if unat i + 1 < unat c
       then delay (unat d) (digitalWrite HIGH (delay (unat d) (digitalWrite LOW s)))
       else digitalWrite HIGH (delay (unat d) (digitalWrite LOW s)))"
    have step: "flash_loop i c d s = flash_loop (i + 1) c d s4"
      using True by (subst flash_loop.simps) (simp add: s4_def Let_def)
    have "flash_loop (i + 1) c d s4 = s4\<lparr>trace := trace s4 @ flash_spec m (unat d)\<rparr>"
      using "1.IH" [OF True refl refl refl refl le] by (simp add: s4_def m')
    moreover have "s4 = s\<lparr>trace := trace s @ [DigitalWrite LOW, Delay (unat d), DigitalWrite HIGH]
        @ (if m = 0 then [] else [Delay (unat d)])\<rparr>"
      using m lt by (auto simp: s4_def emit_def delay_def digitalWrite_def)
    ultimately show ?thesis
      by (simp add: step m)
  qed
qed

lemma flashBuiltinLed_trace:
  "flashBuiltinLed c d s = s\<lparr>trace := trace s @ flash_spec (unat c) (unat d)\<rparr>"
  by (simp add: flashBuiltinLed_def flash_loop_trace)

lemma count_low_flash_spec: "count_list (flash_spec n d) (DigitalWrite LOW) = n"
  by (induction n d rule: flash_spec.induct) auto

lemma count_high_flash_spec: "count_list (flash_spec n d) (DigitalWrite HIGH) = n"
  by (induction n d rule: flash_spec.induct) auto

lemma count_delay_flash_spec: "count_list (flash_spec n d) (Delay d) = 2 * n - 1"
  by (induction n d rule: flash_spec.induct) auto

text \<open>
  Claim C9. For every flash count and duration (both \<open>uint8_t\<close>), \<open>flashBuiltinLed\<close>
  appends to the indicator's history exactly the specified pattern: on for the duration,
  then off, count times, with a pause of the duration between two flashes and none after
  the last; so the indicator is switched on count times, switched off count times and the
  firmware waits \<open>2 * count - 1\<close> times. Without arguments the count is 5 and the
  duration 200 ms.
\<close>

theorem flashBuiltinLed_pattern:
  "flashBuiltinLed count d s = s\<lparr>trace := trace s @ flash_spec (unat count) (unat d)\<rparr>
   \<and> count_list (flash_spec (unat count) (unat d)) (DigitalWrite LOW) = unat count
   \<and> count_list (flash_spec (unat count) (unat d)) (DigitalWrite HIGH) = unat count
   \<and> count_list (flash_spec (unat count) (unat d)) (Delay (unat d)) = 2 * unat count - 1
   \<and> flashBuiltinLed_default s = s\<lparr>trace := trace s @ flash_spec 5 200\<rparr>"
  by (simp add: flashBuiltinLed_trace count_low_flash_spec count_high_flash_spec
      count_delay_flash_spec flashBuiltinLed_default_def WAVE_FLASH_COUNT_def FLASH_MILLIS_def)

subsection \<open>Bring-up and the steps of the main cycle\<close>

lemma fault_loop_not_Some: "fault_loop n s \<noteq> Some y"
proof
  assume "fault_loop n s = Some y"
  then show False
  proof (rule fault_loop.raw_induct [where P = "\<lambda>n s y. False", rotated])
    fix f :: "8 word \<Rightarrow> state \<Rightarrow> state option" and n s y
    assume "\<And>n s y. f n s = Some y \<Longrightarrow> False" and "f n (fault_body n s) = Some y"
    then show False by blast
  qed
qed

lemma fault_loop_None: "fault_loop n s = None"
  using fault_loop_not_Some [of n s] by (cases "fault_loop n s") auto

lemma fault_iter_eq:
  "fault_iter k n s = s\<lparr>trace := trace s @ concat (replicate k (fault_group (unat n)))\<rparr>"
  by (induction k arbitrary: s)
     (simp_all add: fault_body_def flashBuiltinLed_trace delay_def emit_def fault_group_def
        FLASH_MILLIS_def FAIL_MILLIS_def)

lemma flash_spec_5: "flash_spec 5 d =
  [DigitalWrite LOW, Delay d, DigitalWrite HIGH, Delay d,
   DigitalWrite LOW, Delay d, DigitalWrite HIGH, Delay d,
   DigitalWrite LOW, Delay d, DigitalWrite HIGH, Delay d,
   DigitalWrite LOW, Delay d, DigitalWrite HIGH, Delay d,
   DigitalWrite LOW, Delay d, DigitalWrite HIGH]"
  by (simp add: eval_nat_numeral)

lemma capture_null:
  "fb e = None \<Longrightarrow>
   capture e s = Return (s\<lparr>clickedMillis := millis_click e, trace := trace s @ [FbGet False]\<rparr>)"
  by (simp add: capture_def emit_def)

lemma capture_nofile:
  "fb e = Some buf \<Longrightarrow> \<not> open_ok e \<Longrightarrow>
   capture e s = Return (s\<lparr>imageCtr := imageCtr s + 1, clickedMillis := millis_click e,
      trace := trace s @ [FbGet True, FileOpen (image_path (imageCtr s + 1)) False]\<rparr>)"
  by (simp add: capture_def emit_def Let_def)

lemma capture_shot:
  "fb e = Some buf \<Longrightarrow> open_ok e \<Longrightarrow>
   capture e s = Next (s\<lparr>imageCtr := imageCtr s + 1, clickedMillis := millis_click e,
      eeBuf := imageCtr s + 1, eeFlash := imageCtr s + 1,
      sd := (sd s)(image_path (imageCtr s + 1) \<mapsto> take (written e) buf),
      trace := trace s @ shot_events (imageCtr s + 1) (length buf)\<rparr>)"
  by (simp add: capture_def emit_def Let_def shot_events_def flashBuiltinLed_trace
      eeprom_writeUShort_def eeprom_commit_def SNAP_FLASH_COUNT_def FLASH_MILLIS_def)

lemma idle_check_sleep:
  "AWAKE_MILLIS < millis_check e - clickedMillis s \<Longrightarrow>
   idle_check e s = s\<lparr>eeFlash := eeBuf s, phase := Asleep, trace := trace s @ sleep_events\<rparr>"
  by (simp add: idle_check_def deep_sleep_def flashBuiltinLed_default_def flashBuiltinLed_trace
      eeprom_end_def emit_def sleep_events_def WAVE_FLASH_COUNT_def FLASH_MILLIS_def)

lemma idle_check_awake:
  "\<not> AWAKE_MILLIS < millis_check e - clickedMillis s \<Longrightarrow> idle_check e s = s"
  by (simp add: idle_check_def)

lemma static_init_eq:
  "static_init e s = s\<lparr>clickedMillis := (if clickedInit s then clickedMillis s else millis_init e),
      clickedInit := True\<rparr>"
  by (simp add: static_init_def)

lemma ready_eq:
  "ready c files = \<lparr>imageCtr = c, clickedMillis = 0, clickedInit = False, eeBuf = c,
     eeFlash = c, sd = files, phase = Running,
     trace = [PinModeOutput, DigitalWrite HIGH, CameraInit FRAMESIZE_UXGA 10 2, SdBegin,
       SdCardType, EepromBegin, EepromRead, ShutterBegin] @ flash_spec 5 200\<rparr>"
  by (simp add: ready_def bringup_finish_def bringup_card_def bringup_mount_def
      bringup_camera_def benv_ok_def power_on_def emit_def digitalWrite_def eeprom_begin_def
      flashBuiltinLed_default_def flashBuiltinLed_trace WAVE_FLASH_COUNT_def FLASH_MILLIS_def)

lemma setup_ok:
  "camera_init_ok b \<Longrightarrow> sd_mount_ok b \<Longrightarrow> card_present b \<Longrightarrow>
   arduino_setup b s = Some (bringup_finish (bringup_card (bringup_mount (bringup_camera b s))))"
  by (simp add: arduino_setup_def)

lemma loop_null:
  "clicked e \<Longrightarrow> fb e = None \<Longrightarrow>
   loop e s = s\<lparr>clickedMillis := millis_click e, clickedInit := True,
      trace := trace s @ [FbGet False]\<rparr>"
  by (simp add: loop_def capture_null static_init_def)

lemma loop_nofile:
  "clicked e \<Longrightarrow> fb e = Some buf \<Longrightarrow> \<not> open_ok e \<Longrightarrow>
   loop e s = s\<lparr>imageCtr := imageCtr s + 1, clickedMillis := millis_click e,
      clickedInit := True,
      trace := trace s @ [FbGet True, FileOpen (image_path (imageCtr s + 1)) False]\<rparr>"
  by (simp add: loop_def capture_nofile static_init_def)

lemma image_path_0: "image_path 0 = ''/Image0.jpg''"
  by (simp add: image_path_def digit_def decimal.simps)

lemma image_path_1: "image_path 1 = ''/Image1.jpg''"
  by (simp add: image_path_def digit_def decimal.simps)

lemma idle_check_fields:
  "imageCtr (idle_check e s) = imageCtr s"
  "clickedMillis (idle_check e s) = clickedMillis s"
  "clickedInit (idle_check e s) = clickedInit s"
  "eeBuf (idle_check e s) = eeBuf s"
  "sd (idle_check e s) = sd s"
  by (cases "AWAKE_MILLIS < millis_check e - clickedMillis s";
      simp add: idle_check_sleep idle_check_awake)+

lemma idle_check_eeFlash: "eeBuf s = eeFlash s \<Longrightarrow> eeFlash (idle_check e s) = eeFlash s"
  by (cases "AWAKE_MILLIS < millis_check e - clickedMillis s")
     (simp_all add: idle_check_sleep idle_check_awake)

lemma loop_shot:
  "clicked e \<Longrightarrow> fb e = Some buf \<Longrightarrow> open_ok e \<Longrightarrow>
   loop e s = idle_check e (s\<lparr>clickedInit := True, imageCtr := imageCtr s + 1,
      clickedMillis := millis_click e, eeBuf := imageCtr s + 1, eeFlash := imageCtr s + 1,
      sd := (sd s)(image_path (imageCtr s + 1) \<mapsto> take (written e) buf),
      trace := trace s @ shot_events (imageCtr s + 1) (length buf)\<rparr>)"
  by (simp add: loop_def capture_shot static_init_eq)

lemma loop_idle:
  "\<not> clicked e \<Longrightarrow> loop e s = idle_check e (static_init e s)"
  by (simp add: loop_def)

lemma run_asleep: "phase s = Asleep \<Longrightarrow> run es s = s"
  by (cases es) simp_all

lemma created_files_append:
  "created_files (xs @ ys) = created_files xs @ created_files ys"
  by (induction xs rule: created_files.induct) simp_all

lemma created_files_flash_spec: "created_files (flash_spec n d) = []"
  by (induction n d rule: flash_spec.induct) simp_all

lemma created_files_shot: "created_files (shot_events c len) = [image_path c]"
  by (simp add: shot_events_def)

lemma created_files_sleep: "created_files sleep_events = []"
  by (simp add: sleep_events_def created_files_append created_files_flash_spec)

lemma created_files_idle_check:
  "created_files (trace (idle_check e s)) = created_files (trace s)"
  by (cases "AWAKE_MILLIS < millis_check e - clickedMillis s")
     (simp_all add: idle_check_sleep idle_check_awake created_files_append created_files_sleep)

subsection \<open>The capture transaction\<close>

text \<open>
  Claim C1, as amended. When a capture runs to its end (shutter clicked, frame delivered,
  file opened, counter written and committed), the committed counter afterwards is the
  in-memory counter from before the capture plus 1, modulo \<open>2^16\<close>, and the in-memory
  counter equals it. It is the previously committed counter plus 1 whenever the in-memory
  counter and the committed counter agreed before the capture.
\<close>

theorem commit_after_capture:
  assumes "clicked e" and "fb e = Some buf" and "open_ok e"
  shows "eeFlash (loop e s) = imageCtr s + 1
       \<and> unat (eeFlash (loop e s)) = (unat (imageCtr s) + 1) mod 65536
       \<and> imageCtr (loop e s) = eeFlash (loop e s)
       \<and> (imageCtr s = eeFlash s \<longrightarrow> eeFlash (loop e s) = eeFlash s + 1)"
  using assms by (simp add: loop_shot idle_check_fields idle_check_eeFlash unat_word_ariths)

theorem commit_after_capture_witness:
  "clicked env_shot \<and> fb env_shot = Some demo_frame \<and> open_ok env_shot
   \<and> imageCtr (ready 7 Map.empty) = eeFlash (ready 7 Map.empty)
   \<and> eeFlash (ready 7 Map.empty) = 7
   \<and> eeFlash (loop env_shot (ready 7 Map.empty)) = 8"
  using commit_after_capture [of env_shot demo_frame "ready 7 Map.empty"]
  by (simp add: env_shot_def env_null_def ready_eq)

text \<open>
  Claim C1 as stated fails after a capture whose file could not be created: bring-up loads
  the committed counter 0, the failed capture leaves 1 in memory and 0 committed, and the
  capture that then succeeds commits 2, which is not 0 + 1.
\<close>

theorem persisted_plus_one_counterexample:
  "arduino_setup benv_ok (power_on 0 Map.empty) = Some (ready 0 Map.empty)
   \<and> eeFlash (loop env_nofile (ready 0 Map.empty)) = 0
   \<and> eeFlash (loop env_shot (loop env_nofile (ready 0 Map.empty))) = 2
   \<and> eeFlash (loop env_shot (loop env_nofile (ready 0 Map.empty)))
       \<noteq> eeFlash (loop env_nofile (ready 0 Map.empty)) + 1"
proof -
  have boot: "arduino_setup benv_ok (power_on 0 Map.empty) = Some (ready 0 Map.empty)"
    by (simp add: setup_ok benv_ok_def ready_def)
  have a: "clicked env_nofile" "fb env_nofile = Some demo_frame" "\<not> open_ok env_nofile"
    by (simp_all add: env_nofile_def env_null_def)
  have b: "clicked env_shot" "fb env_shot = Some demo_frame" "open_ok env_shot"
    by (simp_all add: env_shot_def env_null_def)
  have s1: "eeFlash (loop env_nofile (ready 0 Map.empty)) = 0"
    "imageCtr (loop env_nofile (ready 0 Map.empty)) = 1"
    by (simp_all add: loop_nofile [OF a] ready_eq)
  have s2: "eeFlash (loop env_shot (loop env_nofile (ready 0 Map.empty))) = 2"
    by (simp add: loop_shot [OF b] idle_check_eeFlash s1)
  show ?thesis
    using boot s1 s2 by simp
qed

text \<open>
  Claim C2 does not hold of the firmware. With the shutter clicked, a frame delivered and
  \<open>SD_MMC.open\<close> failing, \<open>loop\<close> returns right after the failed open: the frame
  buffer was taken once and \<open>esp_camera_fb_return\<close> is never called.
\<close>

theorem frame_leak_on_open_failure:
  "trace (loop env_nofile (ready 0 Map.empty)) =
     trace (ready 0 Map.empty) @ [FbGet True, FileOpen ''/Image1.jpg'' False]
   \<and> count_list (trace (loop env_nofile (ready 0 Map.empty))) (FbGet True) = 1
   \<and> count_list (trace (loop env_nofile (ready 0 Map.empty))) FbReturn = 0"
proof -
  have a: "clicked env_nofile" "fb env_nofile = Some demo_frame" "\<not> open_ok env_nofile"
    by (simp_all add: env_nofile_def env_null_def)
  show ?thesis
    by (simp add: loop_nofile [OF a] ready_eq image_path_1 flash_spec_5)
qed

text \<open>
  Claim C5. When the shutter is clicked and \<open>esp_camera_fb_get\<close> returns a null pointer,
  \<open>loop\<close> returns with the in-memory counter, the store (RAM copy and committed value)
  and the card unchanged; the only event is the failed acquisition, so no file is opened
  and the indicator is not driven. The device keeps running: the main cycle goes on with
  the next iteration.
\<close>

theorem acquisition_failure_is_noop:
  assumes "clicked e" and "fb e = None"
  shows "imageCtr (loop e s) = imageCtr s
       \<and> eeBuf (loop e s) = eeBuf s
       \<and> eeFlash (loop e s) = eeFlash s
       \<and> sd (loop e s) = sd s
       \<and> trace (loop e s) = trace s @ [FbGet False]
       \<and> phase (loop e s) = phase s
       \<and> (phase s = Running \<longrightarrow> run (e # es) s = run es (loop e s))"
  using assms by (simp add: loop_null)

theorem acquisition_failure_is_noop_witness:
  "clicked env_null \<and> fb env_null = None
   \<and> imageCtr (loop env_null (ready 7 Map.empty)) = 7
   \<and> eeFlash (loop env_null (ready 7 Map.empty)) = 7
   \<and> trace (loop env_null (ready 7 Map.empty)) = trace (ready 7 Map.empty) @ [FbGet False]
   \<and> phase (loop env_null (ready 7 Map.empty)) = Running
   \<and> run [env_null, env_idle] (ready 7 Map.empty) = run [env_idle] (loop env_null (ready 7 Map.empty))"
  using acquisition_failure_is_noop [of env_null "ready 7 Map.empty" "[env_idle]"]
  by (simp add: env_null_def ready_eq)

text \<open>
  Claim C6. When the shutter is clicked, a frame is delivered and the file cannot be
  created, the committed counter and the RAM copy of the store are unchanged (no write,
  no commit), the in-memory counter stays incremented by 1 (modulo \<open>2^16\<close>), the card is
  unchanged, and the only events are the acquisition and the failed open: no flash.
\<close>

theorem file_creation_failure:
  assumes "clicked e" and "fb e = Some buf" and "\<not> open_ok e"
  shows "imageCtr (loop e s) = imageCtr s + 1
       \<and> unat (imageCtr (loop e s)) = (unat (imageCtr s) + 1) mod 65536
       \<and> eeBuf (loop e s) = eeBuf s
       \<and> eeFlash (loop e s) = eeFlash s
       \<and> sd (loop e s) = sd s
       \<and> phase (loop e s) = phase s
       \<and> trace (loop e s) =
           trace s @ [FbGet True, FileOpen (image_path (imageCtr s + 1)) False]"
  using assms by (simp add: loop_nofile unat_word_ariths)

theorem file_creation_failure_witness:
  "clicked env_nofile \<and> fb env_nofile = Some demo_frame \<and> \<not> open_ok env_nofile
   \<and> imageCtr (loop env_nofile (ready 7 Map.empty)) = 8
   \<and> eeFlash (loop env_nofile (ready 7 Map.empty)) = 7
   \<and> trace (loop env_nofile (ready 7 Map.empty)) =
        trace (ready 7 Map.empty) @ [FbGet True, FileOpen ''/Image8.jpg'' False]"
  using file_creation_failure [of env_nofile demo_frame "ready 7 Map.empty"]
  by (simp add: env_nofile_def env_null_def ready_eq image_path_def decimal.simps digit_def)

text \<open>
  Claim C10. The counter is a \<open>uint16_t\<close>: when it is 65535 and a capture reaches the
  increment, it becomes 0 and the file name derived from it is \<open>/Image0.jpg\<close>; that is
  the file the firmware tries to open, and when the file is created the frame goes to
  \<open>/Image0.jpg\<close> and the committed counter becomes 0.
\<close>

theorem counter_wraps_to_zero:
  assumes "imageCtr s = 65535" and "clicked e" and "fb e = Some buf"
  shows "imageCtr (loop e s) = 0
       \<and> image_path (imageCtr (loop e s)) = ''/Image0.jpg''
       \<and> (\<not> open_ok e \<longrightarrow>
            trace (loop e s) = trace s @ [FbGet True, FileOpen ''/Image0.jpg'' False])
       \<and> (open_ok e \<longrightarrow>
            created_files (trace (loop e s)) = created_files (trace s) @ [''/Image0.jpg'']
            \<and> sd (loop e s) ''/Image0.jpg'' = Some (take (written e) buf)
            \<and> eeFlash (loop e s) = 0)"
proof -
  from assms(1) have z: "imageCtr s + 1 = 0"
    by simp
  show ?thesis
  proof (cases "open_ok e")
    case False
    with assms(2,3) show ?thesis
      by (simp add: loop_nofile z image_path_0)
  next
    case True
    with assms(2,3) show ?thesis
      by (simp add: loop_shot idle_check_fields idle_check_eeFlash created_files_idle_check
          created_files_append created_files_shot z image_path_0)
  qed
qed

theorem counter_wraps_to_zero_witness:
  "imageCtr (ready 65535 Map.empty) = 65535 \<and> clicked env_shot
   \<and> fb env_shot = Some demo_frame \<and> open_ok env_shot
   \<and> imageCtr (loop env_shot (ready 65535 Map.empty)) = 0
   \<and> created_files (trace (loop env_shot (ready 65535 Map.empty))) = [''/Image0.jpg'']
   \<and> sd (loop env_shot (ready 65535 Map.empty)) ''/Image0.jpg'' = Some demo_frame
   \<and> eeFlash (loop env_shot (ready 65535 Map.empty)) = 0"
  using counter_wraps_to_zero [of "ready 65535 Map.empty" env_shot demo_frame]
  by (simp add: env_shot_def env_null_def ready_eq demo_frame_def created_files_append
      created_files_flash_spec)

subsection \<open>The idle timeout\<close>

text \<open>
  Claim C8. The idle clock \<open>clickedMillis\<close> is initialised from \<open>millis()\<close> in the first
  iteration after bring-up and set to the current \<open>millis()\<close> by every click, whatever
  becomes of the capture. After every iteration the device is asleep exactly if the last
  \<open>millis()\<close> reading of the iteration is more than five minutes past the idle clock (or
  it was asleep before). In detail: an iteration that reaches the idle test (no click, or
  a capture that ran to its end) compares the time since the last click with five
  minutes; above it, the firmware shuts the store down, flashes the wave of five and
  enters deep sleep, otherwise the device stays in its phase and nothing else happens.
  An iteration whose capture fails returns before the test, having reset the clock in
  that same iteration. Once asleep, no further iteration runs.
\<close>

theorem idle_timeout:
  "(phase (loop e s) = Asleep \<longleftrightarrow>
      phase s = Asleep \<or> AWAKE_MILLIS < last_millis e - clickedMillis (loop e s))
   \<and> clickedMillis (loop e s) =
        (if clicked e then millis_click e
         else if clickedInit s then clickedMillis s else millis_init e)
   \<and> (\<not> clicked e \<and> AWAKE_MILLIS < millis_check e - clickedMillis (static_init e s) \<longrightarrow>
        phase (loop e s) = Asleep \<and> trace (loop e s) = trace s @ sleep_events)
   \<and> (\<not> clicked e \<and> \<not> AWAKE_MILLIS < millis_check e - clickedMillis (static_init e s) \<longrightarrow>
        phase (loop e s) = phase s \<and> trace (loop e s) = trace s)
   \<and> (clicked e \<and> fb e = Some buf \<and> open_ok e
        \<and> AWAKE_MILLIS < millis_check e - millis_click e \<longrightarrow>
        phase (loop e s) = Asleep
        \<and> trace (loop e s) =
            trace s @ shot_events (imageCtr s + 1) (length buf) @ sleep_events)
   \<and> (clicked e \<and> fb e = Some buf \<and> open_ok e
        \<and> \<not> AWAKE_MILLIS < millis_check e - millis_click e \<longrightarrow>
        phase (loop e s) = phase s
        \<and> trace (loop e s) = trace s @ shot_events (imageCtr s + 1) (length buf))
   \<and> (clicked e \<and> fb e = None \<longrightarrow>
        phase (loop e s) = phase s \<and> trace (loop e s) = trace s @ [FbGet False])
   \<and> (clicked e \<and> fb e = Some buf \<and> \<not> open_ok e \<longrightarrow>
        phase (loop e s) = phase s
        \<and> trace (loop e s) =
            trace s @ [FbGet True, FileOpen (image_path (imageCtr s + 1)) False])
   \<and> (phase s = Asleep \<longrightarrow> run es s = s)"
proof -
  have clock: "clickedMillis (loop e s) =
        (if clicked e then millis_click e
         else if clickedInit s then clickedMillis s else millis_init e)"
  proof (cases "clicked e")
    case False
    then show ?thesis
      by (simp add: loop_idle idle_check_fields static_init_eq)
  next
    case c: True
    show ?thesis
    proof (cases "fb e")
      case None
      with c show ?thesis by (simp add: loop_null)
    next
      case (Some b)
      with c show ?thesis
        by (cases "open_ok e") (simp_all add: loop_nofile loop_shot idle_check_fields)
    qed
  qed
  have asleep: "phase (loop e s) = Asleep \<longleftrightarrow>
      phase s = Asleep \<or> AWAKE_MILLIS < last_millis e - clickedMillis (loop e s)"
  proof (cases "clicked e")
    case False
    then show ?thesis
      unfolding clock
      by (cases "AWAKE_MILLIS < millis_check e - clickedMillis (static_init e s)")
         (simp_all add: loop_idle idle_check_sleep idle_check_awake static_init_eq
           last_millis_def)
  next
    case c: True
    show ?thesis
    proof (cases "fb e")
      case None
      with c show ?thesis
        unfolding clock by (simp add: loop_null last_millis_def)
    next
      case (Some b)
      show ?thesis
      proof (cases "open_ok e")
        case False
        with c Some show ?thesis
          unfolding clock by (simp add: loop_nofile last_millis_def)
      next
        case True
        with c Some show ?thesis
          unfolding clock
          by (cases "AWAKE_MILLIS < millis_check e - millis_click e")
             (simp_all add: loop_shot idle_check_sleep idle_check_awake last_millis_def)
      qed
    qed
  qed
  have rest: "(\<not> clicked e \<and> AWAKE_MILLIS < millis_check e - clickedMillis (static_init e s) \<longrightarrow>
        phase (loop e s) = Asleep \<and> trace (loop e s) = trace s @ sleep_events)
   \<and> (\<not> clicked e \<and> \<not> AWAKE_MILLIS < millis_check e - clickedMillis (static_init e s) \<longrightarrow>
        phase (loop e s) = phase s \<and> trace (loop e s) = trace s)
   \<and> (clicked e \<and> fb e = Some buf \<and> open_ok e
        \<and> AWAKE_MILLIS < millis_check e - millis_click e \<longrightarrow>
        phase (loop e s) = Asleep
        \<and> trace (loop e s) =
            trace s @ shot_events (imageCtr s + 1) (length buf) @ sleep_events)
   \<and> (clicked e \<and> fb e = Some buf \<and> open_ok e
        \<and> \<not> AWAKE_MILLIS < millis_check e - millis_click e \<longrightarrow>
        phase (loop e s) = phase s
        \<and> trace (loop e s) = trace s @ shot_events (imageCtr s + 1) (length buf))
   \<and> (clicked e \<and> fb e = None \<longrightarrow>
        phase (loop e s) = phase s \<and> trace (loop e s) = trace s @ [FbGet False])
   \<and> (clicked e \<and> fb e = Some buf \<and> \<not> open_ok e \<longrightarrow>
        phase (loop e s) = phase s
        \<and> trace (loop e s) =
            trace s @ [FbGet True, FileOpen (image_path (imageCtr s + 1)) False])
   \<and> (phase s = Asleep \<longrightarrow> run es s = s)"
    by (simp add: static_init_eq loop_idle loop_shot loop_null loop_nofile idle_check_sleep
        idle_check_awake run_asleep)
  from asleep clock rest show ?thesis
    by blast
qed

theorem idle_timeout_witness:
  "\<not> clicked env_late
   \<and> AWAKE_MILLIS < millis_check env_late - clickedMillis (static_init env_late (ready 0 Map.empty))
   \<and> phase (loop env_late (ready 0 Map.empty)) = Asleep
   \<and> trace (loop env_late (ready 0 Map.empty)) = trace (ready 0 Map.empty) @ sleep_events
   \<and> run [env_shot] (loop env_late (ready 0 Map.empty)) = loop env_late (ready 0 Map.empty)
   \<and> clicked env_shot
   \<and> clickedMillis (loop env_shot (ready 0 Map.empty)) = 5000
   \<and> \<not> AWAKE_MILLIS < millis_check env_shot - millis_click env_shot
   \<and> phase (loop env_shot (ready 0 Map.empty)) = Running"
proof -
  let ?s = "ready 0 Map.empty"
  note late = idle_timeout [of env_late ?s demo_frame "[env_shot]"]
  note shot = idle_timeout [of env_shot ?s demo_frame "[]"]
  have h1: "\<not> clicked env_late"
    "AWAKE_MILLIS < millis_check env_late - clickedMillis (static_init env_late ?s)"
    by (simp_all add: env_late_def env_idle_def ready_eq static_init_eq AWAKE_MILLIS_def)
  have h2: "clicked env_shot" "fb env_shot = Some demo_frame" "open_ok env_shot"
    "\<not> AWAKE_MILLIS < millis_check env_shot - millis_click env_shot"
    "millis_click env_shot = 5000"
    by (simp_all add: env_shot_def env_null_def AWAKE_MILLIS_def)
  have run0: "phase ?s = Running"
    by (simp add: ready_eq)
  from late h1 have l1: "phase (loop env_late ?s) = Asleep"
      "trace (loop env_late ?s) = trace ?s @ sleep_events"
    by blast+
  from idle_timeout [of env_late "loop env_late ?s" demo_frame "[env_shot]"] l1(1)
  have l2: "run [env_shot] (loop env_late ?s) = loop env_late ?s"
    by blast
  from shot h2 have s1: "clickedMillis (loop env_shot ?s) = 5000"
    by simp
  from shot h2 have "phase (loop env_shot ?s) = phase ?s"
    by blast
  with run0 have s2: "phase (loop env_shot ?s) = Running"
    by simp
  show ?thesis
    using h1 h2 l1 l2 s1 s2 by (simp del: run.simps)
qed

subsection \<open>Fail-fast bring-up\<close>

lemma bringup_camera_eq:
  "bringup_camera b s = s\<lparr>trace := trace s @ [PinModeOutput, DigitalWrite HIGH,
     if psram b then CameraInit FRAMESIZE_UXGA 10 2 else CameraInit FRAMESIZE_SVGA 12 1]\<rparr>"
  by (simp add: bringup_camera_def emit_def digitalWrite_def)

lemma bringup_mount_eq: "bringup_mount s = s\<lparr>trace := trace s @ [SdBegin]\<rparr>"
  by (simp add: bringup_mount_def emit_def)

lemma bringup_card_eq: "bringup_card s = s\<lparr>trace := trace s @ [SdCardType]\<rparr>"
  by (simp add: bringup_card_def emit_def)

lemma count_low_fault_group: "count_list (fault_group n) (DigitalWrite LOW) = n"
  by (simp add: fault_group_def count_low_flash_spec)

lemma fault_groups:
  "fault_group 2 =
     [DigitalWrite LOW, Delay 200, DigitalWrite HIGH, Delay 200,
      DigitalWrite LOW, Delay 200, DigitalWrite HIGH, Delay 1000]"
  "fault_group 3 =
     [DigitalWrite LOW, Delay 200, DigitalWrite HIGH, Delay 200,
      DigitalWrite LOW, Delay 200, DigitalWrite HIGH, Delay 200,
      DigitalWrite LOW, Delay 200, DigitalWrite HIGH, Delay 1000]"
  "fault_group 4 =
     [DigitalWrite LOW, Delay 200, DigitalWrite HIGH, Delay 200,
      DigitalWrite LOW, Delay 200, DigitalWrite HIGH, Delay 200,
      DigitalWrite LOW, Delay 200, DigitalWrite HIGH, Delay 200,
      DigitalWrite LOW, Delay 200, DigitalWrite HIGH, Delay 1000]"
  by (simp_all add: fault_group_def eval_nat_numeral)

lemma setup_fuel_agrees:
  "arduino_setup b s =
     (case arduino_setup_fuel k b s of Returned s' \<Rightarrow> Some s' | Looping s' \<Rightarrow> None)"
  by (simp add: arduino_setup_def arduino_setup_fuel_def fault_loop_None Let_def)

lemma firmware_fuel_agrees:
  "firmware b es s =
     (case firmware_fuel k b es s of Returned s' \<Rightarrow> Some s' | Looping s' \<Rightarrow> None)"
  by (simp add: firmware_def firmware_fuel_def setup_fuel_agrees [of b s k]
      split: progress.split)

text \<open>
  Claim C7. Bring-up stops at the first stage that fails. If the camera cannot be
  initialised, \<open>setup\<close> enters a loop without exit: after any number \<open>k\<close> of passes
  through it the device has initialised the indicator and tried the camera, and then
  shown \<open>k\<close> groups of exactly 2 flashes, each followed by a pause of 1000 ms, and
  nothing else. If the card reader cannot be mounted it has in addition tried the mount
  and the groups have exactly 3 flashes; if no card is present it has also asked for the
  card type and the groups have exactly 4. In each case control is still inside the loop
  whatever \<open>k\<close> is, so \<open>setup\<close> never returns and no iteration of the main cycle
  runs; the rest of the state is as it was: the counter is not loaded, the shutter is
  not started, the ready wave is not shown. Only when all three stages succeed does
  \<open>setup\<close> return, and then the main cycle runs.
\<close>

theorem bringup_fail_fast:
  "(\<not> camera_init_ok b \<longrightarrow>
      arduino_setup_fuel k b s =
        Looping (s\<lparr>trace := trace s
          @ [PinModeOutput, DigitalWrite HIGH,
             if psram b then CameraInit FRAMESIZE_UXGA 10 2 else CameraInit FRAMESIZE_SVGA 12 1]
          @ concat (replicate k (fault_group 2))\<rparr>)
      \<and> firmware_fuel k b es s = arduino_setup_fuel k b s
      \<and> arduino_setup b s = None \<and> firmware b es s = None)
   \<and> (camera_init_ok b \<and> \<not> sd_mount_ok b \<longrightarrow>
      arduino_setup_fuel k b s =
        Looping (s\<lparr>trace := trace s
          @ [PinModeOutput, DigitalWrite HIGH,
             if psram b then CameraInit FRAMESIZE_UXGA 10 2 else CameraInit FRAMESIZE_SVGA 12 1,
             SdBegin]
          @ concat (replicate k (fault_group 3))\<rparr>)
      \<and> firmware_fuel k b es s = arduino_setup_fuel k b s
      \<and> arduino_setup b s = None \<and> firmware b es s = None)
   \<and> (camera_init_ok b \<and> sd_mount_ok b \<and> \<not> card_present b \<longrightarrow>
      arduino_setup_fuel k b s =
        Looping (s\<lparr>trace := trace s
          @ [PinModeOutput, DigitalWrite HIGH,
             if psram b then CameraInit FRAMESIZE_UXGA 10 2 else CameraInit FRAMESIZE_SVGA 12 1,
             SdBegin, SdCardType]
          @ concat (replicate k (fault_group 4))\<rparr>)
      \<and> firmware_fuel k b es s = arduino_setup_fuel k b s
      \<and> arduino_setup b s = None \<and> firmware b es s = None)
   \<and> (camera_init_ok b \<and> sd_mount_ok b \<and> card_present b \<longrightarrow>
      arduino_setup_fuel k b s =
        Returned (bringup_finish (bringup_card (bringup_mount (bringup_camera b s))))
      \<and> firmware_fuel k b es s =
        Returned (run es (bringup_finish (bringup_card (bringup_mount (bringup_camera b s)))))
      \<and> arduino_setup b s =
        Some (bringup_finish (bringup_card (bringup_mount (bringup_camera b s)))))
   \<and> arduino_setup b s =
        (case arduino_setup_fuel k b s of Returned s' \<Rightarrow> Some s' | Looping s' \<Rightarrow> None)
   \<and> fault_group 2 =
        [DigitalWrite LOW, Delay 200, DigitalWrite HIGH, Delay 200,
         DigitalWrite LOW, Delay 200, DigitalWrite HIGH, Delay 1000]
   \<and> fault_group 3 =
        [DigitalWrite LOW, Delay 200, DigitalWrite HIGH, Delay 200,
         DigitalWrite LOW, Delay 200, DigitalWrite HIGH, Delay 200,
         DigitalWrite LOW, Delay 200, DigitalWrite HIGH, Delay 1000]
   \<and> fault_group 4 =
        [DigitalWrite LOW, Delay 200, DigitalWrite HIGH, Delay 200,
         DigitalWrite LOW, Delay 200, DigitalWrite HIGH, Delay 200,
         DigitalWrite LOW, Delay 200, DigitalWrite HIGH, Delay 200,
         DigitalWrite LOW, Delay 200, DigitalWrite HIGH, Delay 1000]
   \<and> count_list (fault_group 2) (DigitalWrite LOW) = 2
   \<and> count_list (fault_group 3) (DigitalWrite LOW) = 3
   \<and> count_list (fault_group 4) (DigitalWrite LOW) = 4"
proof -
  have cam: "\<not> camera_init_ok b \<Longrightarrow>
      arduino_setup_fuel k b s =
        Looping (s\<lparr>trace := trace s
          @ [PinModeOutput, DigitalWrite HIGH,
             if psram b then CameraInit FRAMESIZE_UXGA 10 2 else CameraInit FRAMESIZE_SVGA 12 1]
          @ concat (replicate k (fault_group 2))\<rparr>)"
    by (simp add: arduino_setup_fuel_def fault_iter_eq CAMI_FLASH_COUNT_def bringup_camera_eq)
  have mnt: "camera_init_ok b \<Longrightarrow> \<not> sd_mount_ok b \<Longrightarrow>
      arduino_setup_fuel k b s =
        Looping (s\<lparr>trace := trace s
          @ [PinModeOutput, DigitalWrite HIGH,
             if psram b then CameraInit FRAMESIZE_UXGA 10 2 else CameraInit FRAMESIZE_SVGA 12 1,
             SdBegin]
          @ concat (replicate k (fault_group 3))\<rparr>)"
    by (simp add: arduino_setup_fuel_def fault_iter_eq SDMI_FLASH_COUNT_def bringup_camera_eq
        bringup_mount_eq)
  have crd: "camera_init_ok b \<Longrightarrow> sd_mount_ok b \<Longrightarrow> \<not> card_present b \<Longrightarrow>
      arduino_setup_fuel k b s =
        Looping (s\<lparr>trace := trace s
          @ [PinModeOutput, DigitalWrite HIGH,
             if psram b then CameraInit FRAMESIZE_UXGA 10 2 else CameraInit FRAMESIZE_SVGA 12 1,
             SdBegin, SdCardType]
          @ concat (replicate k (fault_group 4))\<rparr>)"
    by (simp add: arduino_setup_fuel_def fault_iter_eq SDCI_FLASH_COUNT_def bringup_camera_eq
        bringup_mount_eq bringup_card_eq)
  have ok: "camera_init_ok b \<Longrightarrow> sd_mount_ok b \<Longrightarrow> card_present b \<Longrightarrow>
      arduino_setup_fuel k b s =
        Returned (bringup_finish (bringup_card (bringup_mount (bringup_camera b s))))"
    by (simp add: arduino_setup_fuel_def)
  note agree = setup_fuel_agrees [of b s k]
  note fagree = firmware_fuel_agrees [of b es s k]
  have fw: "firmware_fuel k b es s =
      (case arduino_setup_fuel k b s of
         Looping s' \<Rightarrow> Looping s' | Returned s' \<Rightarrow> Returned (run es s'))"
    by (simp add: firmware_fuel_def)
  have c1: "\<not> camera_init_ok b \<longrightarrow>
      arduino_setup_fuel k b s =
        Looping (s\<lparr>trace := trace s
          @ [PinModeOutput, DigitalWrite HIGH,
             if psram b then CameraInit FRAMESIZE_UXGA 10 2 else CameraInit FRAMESIZE_SVGA 12 1]
          @ concat (replicate k (fault_group 2))\<rparr>)
      \<and> firmware_fuel k b es s = arduino_setup_fuel k b s
      \<and> arduino_setup b s = None \<and> firmware b es s = None"
    using cam by (simp add: agree fagree fw)
  have c2: "camera_init_ok b \<and> \<not> sd_mount_ok b \<longrightarrow>
      arduino_setup_fuel k b s =
        Looping (s\<lparr>trace := trace s
          @ [PinModeOutput, DigitalWrite HIGH,
             if psram b then CameraInit FRAMESIZE_UXGA 10 2 else CameraInit FRAMESIZE_SVGA 12 1,
             SdBegin]
          @ concat (replicate k (fault_group 3))\<rparr>)
      \<and> firmware_fuel k b es s = arduino_setup_fuel k b s
      \<and> arduino_setup b s = None \<and> firmware b es s = None"
    using mnt by (simp add: agree fagree fw)
  have c3: "camera_init_ok b \<and> sd_mount_ok b \<and> \<not> card_present b \<longrightarrow>
      arduino_setup_fuel k b s =
        Looping (s\<lparr>trace := trace s
          @ [PinModeOutput, DigitalWrite HIGH,
             if psram b then CameraInit FRAMESIZE_UXGA 10 2 else CameraInit FRAMESIZE_SVGA 12 1,
             SdBegin, SdCardType]
          @ concat (replicate k (fault_group 4))\<rparr>)
      \<and> firmware_fuel k b es s = arduino_setup_fuel k b s
      \<and> arduino_setup b s = None \<and> firmware b es s = None"
    using crd by (simp add: agree fagree fw)
  have c4: "camera_init_ok b \<and> sd_mount_ok b \<and> card_present b \<longrightarrow>
      arduino_setup_fuel k b s =
        Returned (bringup_finish (bringup_card (bringup_mount (bringup_camera b s))))
      \<and> firmware_fuel k b es s =
        Returned (run es (bringup_finish (bringup_card (bringup_mount (bringup_camera b s)))))
      \<and> arduino_setup b s =
        Some (bringup_finish (bringup_card (bringup_mount (bringup_camera b s))))"
    using ok by (simp add: agree fw)
  from c1 c2 c3 c4 agree fault_groups count_low_fault_group [of 2]
    count_low_fault_group [of 3] count_low_fault_group [of 4]
  show ?thesis
    by blast
qed

theorem bringup_fail_fast_witness:
  "\<not> camera_init_ok benv_no_camera
   \<and> arduino_setup_fuel (Suc (Suc 0)) benv_no_camera (power_on 0 Map.empty) =
       Looping ((power_on 0 Map.empty)\<lparr>trace :=
         [PinModeOutput, DigitalWrite HIGH, CameraInit FRAMESIZE_UXGA 10 2]
         @ fault_group 2 @ fault_group 2\<rparr>)
   \<and> firmware_fuel (Suc (Suc 0)) benv_no_camera [env_shot] (power_on 0 Map.empty) =
       arduino_setup_fuel (Suc (Suc 0)) benv_no_camera (power_on 0 Map.empty)
   \<and> arduino_setup benv_no_camera (power_on 0 Map.empty) = None
   \<and> firmware benv_no_camera [env_shot] (power_on 0 Map.empty) = None
   \<and> camera_init_ok benv_no_mount \<and> \<not> sd_mount_ok benv_no_mount
   \<and> arduino_setup_fuel (Suc (Suc 0)) benv_no_mount (power_on 0 Map.empty) =
       Looping ((power_on 0 Map.empty)\<lparr>trace :=
         [PinModeOutput, DigitalWrite HIGH, CameraInit FRAMESIZE_UXGA 10 2, SdBegin]
         @ fault_group 3 @ fault_group 3\<rparr>)
   \<and> arduino_setup benv_no_mount (power_on 0 Map.empty) = None
   \<and> camera_init_ok benv_no_card \<and> sd_mount_ok benv_no_card \<and> \<not> card_present benv_no_card
   \<and> arduino_setup_fuel (Suc (Suc 0)) benv_no_card (power_on 0 Map.empty) =
       Looping ((power_on 0 Map.empty)\<lparr>trace :=
         [PinModeOutput, DigitalWrite HIGH, CameraInit FRAMESIZE_UXGA 10 2, SdBegin, SdCardType]
         @ fault_group 4 @ fault_group 4\<rparr>)
   \<and> arduino_setup benv_no_card (power_on 0 Map.empty) = None
   \<and> camera_init_ok benv_ok \<and> sd_mount_ok benv_ok \<and> card_present benv_ok
   \<and> arduino_setup_fuel (Suc (Suc 0)) benv_ok (power_on 0 Map.empty) =
       Returned (ready 0 Map.empty)"
proof -
  let ?s = "power_on 0 Map.empty" and ?k = "Suc (Suc 0)"
  note cam = bringup_fail_fast [of benv_no_camera ?k ?s "[env_shot]"]
  note mnt = bringup_fail_fast [of benv_no_mount ?k ?s "[env_shot]"]
  note crd = bringup_fail_fast [of benv_no_card ?k ?s "[env_shot]"]
  note fine = bringup_fail_fast [of benv_ok ?k ?s "[env_shot]"]
  have h1: "\<not> camera_init_ok benv_no_camera"
    by (simp add: benv_no_camera_def benv_ok_def)
  have h2: "camera_init_ok benv_no_mount \<and> \<not> sd_mount_ok benv_no_mount"
    by (simp add: benv_no_mount_def benv_ok_def)
  have h3: "camera_init_ok benv_no_card \<and> sd_mount_ok benv_no_card
      \<and> \<not> card_present benv_no_card"
    by (simp add: benv_no_card_def benv_ok_def)
  have h4: "camera_init_ok benv_ok \<and> sd_mount_ok benv_ok \<and> card_present benv_ok"
    by (simp add: benv_ok_def)
  have p: "psram benv_no_camera" "psram benv_no_mount" "psram benv_no_card"
    by (simp_all add: benv_no_camera_def benv_no_mount_def benv_no_card_def benv_ok_def)
  have t0: "trace ?s = []"
    by (simp add: power_on_def)
  from cam h1 have r1: "firmware_fuel ?k benv_no_camera [env_shot] ?s =
        arduino_setup_fuel ?k benv_no_camera ?s"
      "arduino_setup benv_no_camera ?s = None"
      "firmware benv_no_camera [env_shot] ?s = None"
    by blast+
  from cam h1 have "arduino_setup_fuel ?k benv_no_camera ?s =
      Looping (?s\<lparr>trace := trace ?s
          @ [PinModeOutput, DigitalWrite HIGH,
             if psram benv_no_camera then CameraInit FRAMESIZE_UXGA 10 2
             else CameraInit FRAMESIZE_SVGA 12 1]
          @ concat (replicate ?k (fault_group 2))\<rparr>)"
    by blast
  then have i1: "arduino_setup_fuel ?k benv_no_camera ?s =
      Looping (?s\<lparr>trace :=
         [PinModeOutput, DigitalWrite HIGH, CameraInit FRAMESIZE_UXGA 10 2]
         @ fault_group 2 @ fault_group 2\<rparr>)"
    by (simp add: p t0)
  from mnt h2 have r2: "arduino_setup benv_no_mount ?s = None"
    by blast
  from mnt h2 have "arduino_setup_fuel ?k benv_no_mount ?s =
      Looping (?s\<lparr>trace := trace ?s
          @ [PinModeOutput, DigitalWrite HIGH,
             if psram benv_no_mount then CameraInit FRAMESIZE_UXGA 10 2
             else CameraInit FRAMESIZE_SVGA 12 1,
             SdBegin]
          @ concat (replicate ?k (fault_group 3))\<rparr>)"
    by blast
  then have i2: "arduino_setup_fuel ?k benv_no_mount ?s =
      Looping (?s\<lparr>trace :=
         [PinModeOutput, DigitalWrite HIGH, CameraInit FRAMESIZE_UXGA 10 2, SdBegin]
         @ fault_group 3 @ fault_group 3\<rparr>)"
    by (simp add: p t0)
  from crd h3 have r3: "arduino_setup benv_no_card ?s = None"
    by blast
  from crd h3 have "arduino_setup_fuel ?k benv_no_card ?s =
      Looping (?s\<lparr>trace := trace ?s
          @ [PinModeOutput, DigitalWrite HIGH,
             if psram benv_no_card then CameraInit FRAMESIZE_UXGA 10 2
             else CameraInit FRAMESIZE_SVGA 12 1,
             SdBegin, SdCardType]
          @ concat (replicate ?k (fault_group 4))\<rparr>)"
    by blast
  then have i3: "arduino_setup_fuel ?k benv_no_card ?s =
      Looping (?s\<lparr>trace :=
         [PinModeOutput, DigitalWrite HIGH, CameraInit FRAMESIZE_UXGA 10 2, SdBegin, SdCardType]
         @ fault_group 4 @ fault_group 4\<rparr>)"
    by (simp add: p t0)
  from fine h4 have "arduino_setup_fuel ?k benv_ok ?s =
      Returned (bringup_finish (bringup_card (bringup_mount (bringup_camera benv_ok ?s))))"
    by blast
  then have i4: "arduino_setup_fuel ?k benv_ok ?s = Returned (ready 0 Map.empty)"
    by (simp add: ready_def)
  from h1 h2 h3 h4 r1 r2 r3 i1 i2 i3 i4 show ?thesis
    by blast
qed

subsection \<open>The counter over a whole session\<close>

lemma run_append: "run (xs @ ys) s = run ys (run xs s)"
  by (induction xs arbitrary: s) (simp_all add: run_asleep)

lemma setup_Some:
  assumes "arduino_setup b s = Some s0"
  shows "s0 = bringup_finish (bringup_card (bringup_mount (bringup_camera b s)))"
  using assms by (auto simp: arduino_setup_def fault_loop_None Let_def split: if_splits)

lemma bringup_finish_fields:
  "eeFlash (bringup_finish s) = eeFlash s"
  "eeBuf (bringup_finish s) = eeFlash s"
  "imageCtr (bringup_finish s) = eeFlash s"
  "phase (bringup_finish s) = phase s"
  "sd (bringup_finish s) = sd s"
  by (simp_all add: bringup_finish_def eeprom_begin_def emit_def flashBuiltinLed_default_def
      flashBuiltinLed_trace Let_def)

lemma setup_counter:
  assumes "arduino_setup b s = Some s0"
  shows "eeFlash s0 = eeFlash s \<and> eeBuf s0 = eeFlash s \<and> imageCtr s0 = eeFlash s"
  by (simp add: setup_Some [OF assms] bringup_finish_fields bringup_card_eq bringup_mount_eq
      bringup_camera_eq)

lemma unat16_succ: "unat (c::16 word) < 65535 \<Longrightarrow> unat (c + 1) = unat c + 1"
  by (simp add: unat_word_ariths)

lemma loop_invariant:
  assumes buf: "eeBuf s = eeFlash s"
    and le: "unat (eeFlash s) \<le> unat (imageCtr s)"
    and room: "acquired e \<Longrightarrow> unat (imageCtr s) < 65535"
  shows "eeBuf (loop e s) = eeFlash (loop e s)
       \<and> unat (eeFlash (loop e s)) \<le> unat (imageCtr (loop e s))
       \<and> unat (eeFlash s) \<le> unat (eeFlash (loop e s))
       \<and> unat (imageCtr (loop e s)) = unat (imageCtr s) + (if acquired e then 1 else 0)"
proof (cases "clicked e")
  case False
  then have "loop e s = idle_check e (static_init e s)"
    by (rule loop_idle)
  moreover have "eeBuf (static_init e s) = eeFlash (static_init e s)"
    using buf by (simp add: static_init_eq)
  ultimately show ?thesis
    using False le buf
    by (simp add: idle_check_fields idle_check_eeFlash static_init_eq acquired_def)
next
  case True
  show ?thesis
  proof (cases "fb e")
    case None
    with True buf le show ?thesis
      by (simp add: loop_null acquired_def)
  next
    case (Some frame)
    with True have acq: "acquired e"
      by (simp add: acquired_def)
    have suc: "unat (imageCtr s + 1) = unat (imageCtr s) + 1"
      using room [OF acq] by (rule unat16_succ)
    show ?thesis
    proof (cases "open_ok e")
      case False
      with True Some buf le suc acq show ?thesis
        by (simp add: loop_nofile)
    next
      case True
      with \<open>clicked e\<close> Some buf le suc acq show ?thesis
        by (simp add: loop_shot idle_check_fields idle_check_eeFlash)
    qed
  qed
qed

lemma run_invariant:
  "eeBuf s = eeFlash s \<Longrightarrow> unat (eeFlash s) \<le> unat (imageCtr s) \<Longrightarrow>
   unat (imageCtr s) + length (filter acquired es) \<le> 65535 \<Longrightarrow>
   eeBuf (run es s) = eeFlash (run es s)
   \<and> unat (eeFlash (run es s)) \<le> unat (imageCtr (run es s))
   \<and> unat (eeFlash s) \<le> unat (eeFlash (run es s))
   \<and> unat (imageCtr (run es s)) \<le> unat (imageCtr s) + length (filter acquired es)"
proof (induction es arbitrary: s)
  case Nil
  then show ?case by simp
next
  case (Cons e es)
  show ?case
  proof (cases "phase s = Asleep")
    case True
    with Cons.prems show ?thesis by simp
  next
    case False
    have room: "acquired e \<Longrightarrow> unat (imageCtr s) < 65535"
      using Cons.prems(3) by simp
    have step: "eeBuf (loop e s) = eeFlash (loop e s)
       \<and> unat (eeFlash (loop e s)) \<le> unat (imageCtr (loop e s))
       \<and> unat (eeFlash s) \<le> unat (eeFlash (loop e s))
       \<and> unat (imageCtr (loop e s)) = unat (imageCtr s) + (if acquired e then 1 else 0)"
      using Cons.prems(1) Cons.prems(2) room by (rule loop_invariant)
    have bound: "unat (imageCtr (loop e s)) + length (filter acquired es) \<le> 65535"
      using step Cons.prems(3) by (simp split: if_splits)
    have ih: "eeBuf (run es (loop e s)) = eeFlash (run es (loop e s))
       \<and> unat (eeFlash (run es (loop e s))) \<le> unat (imageCtr (run es (loop e s)))
       \<and> unat (eeFlash (loop e s)) \<le> unat (eeFlash (run es (loop e s)))
       \<and> unat (imageCtr (run es (loop e s)))
           \<le> unat (imageCtr (loop e s)) + length (filter acquired es)"
      using step bound by (intro Cons.IH) simp_all
    show ?thesis
      using False ih step by (simp split: if_splits)
  qed
qed

lemma session_counter_invariant:
  assumes "arduino_setup b s = Some s0"
    and "unat (eeFlash s) + length (filter acquired (xs @ ys)) \<le> 65535"
  shows "eeFlash s0 = eeFlash s
       \<and> unat (eeFlash (run xs s0)) \<le> unat (imageCtr (run xs s0))
       \<and> unat (eeFlash (run xs s0)) \<le> unat (eeFlash (run (xs @ ys) s0))"
proof -
  note boot = setup_counter [OF assms(1)]
  have b0: "eeBuf s0 = eeFlash s0" and l0: "unat (eeFlash s0) \<le> unat (imageCtr s0)"
    using boot by simp_all
  have r0: "unat (imageCtr s0) + length (filter acquired xs) \<le> 65535"
    using boot assms(2) by simp
  note first = run_invariant [OF b0 l0 r0]
  have r1: "unat (imageCtr (run xs s0)) + length (filter acquired ys) \<le> 65535"
    using first boot assms(2) by simp
  have "unat (eeFlash (run xs s0)) \<le> unat (eeFlash (run ys (run xs s0)))"
    using first r1 by (intro run_invariant [THEN conjunct2, THEN conjunct2, THEN conjunct1]) simp_all
  then show ?thesis
    using boot first by (simp add: run_append)
qed

text \<open>
  Claim C3, as amended. Bring-up leaves the committed counter \<open>C\<close> as it was and loads
  it into memory. From there, for every sequence of loop iterations in which the camera
  delivers no more frames than the 16-bit counter has room for (\<open>C\<close> plus the number of
  acquisitions at most 65535), the in-memory counter is at least the committed counter
  after every iteration, and the committed counter after any further iterations is at
  least what it was.
\<close>

theorem counter_never_decreases:
  assumes "arduino_setup b (power_on c files) = Some s0"
    and "unat c + length (filter acquired (xs @ ys)) \<le> 65535"
  shows "eeFlash s0 = c \<and> imageCtr s0 = c
       \<and> unat (eeFlash (run xs s0)) \<le> unat (imageCtr (run xs s0))
       \<and> unat (eeFlash (run xs s0)) \<le> unat (eeFlash (run (xs @ ys) s0))"
proof -
  have c: "eeFlash (power_on c files) = c"
    by (simp add: power_on_def)
  from assms(2) have "unat (eeFlash (power_on c files)) + length (filter acquired (xs @ ys))
      \<le> 65535"
    by (simp only: c)
  from session_counter_invariant [OF assms(1) this] setup_counter [OF assms(1)]
  show ?thesis
    by (simp add: c)
qed

theorem counter_never_decreases_witness:
  "arduino_setup benv_ok (power_on 7 Map.empty) = Some (ready 7 Map.empty)
   \<and> unat (7::16 word) + length (filter acquired ([env_nofile] @ [env_shot])) \<le> 65535
   \<and> eeFlash (ready 7 Map.empty) = 7
   \<and> unat (eeFlash (run [env_nofile] (ready 7 Map.empty)))
       \<le> unat (imageCtr (run [env_nofile] (ready 7 Map.empty)))
   \<and> unat (eeFlash (run [env_nofile] (ready 7 Map.empty)))
       \<le> unat (eeFlash (run ([env_nofile] @ [env_shot]) (ready 7 Map.empty)))"
proof -
  have boot: "arduino_setup benv_ok (power_on 7 Map.empty) = Some (ready 7 Map.empty)"
    by (simp add: setup_ok benv_ok_def ready_def)
  have room: "unat (7::16 word) + length (filter acquired ([env_nofile] @ [env_shot])) \<le> 65535"
    by (simp add: acquired_def env_nofile_def env_shot_def env_null_def)
  show ?thesis
    using boot room counter_never_decreases [OF boot room] by simp
qed

text \<open>
  Claim C3 as stated fails when the counter wraps. After a bring-up with 65535 committed,
  one successful capture commits 0, so the committed counter decreases; and after a
  capture whose file cannot be created the in-memory counter is 0 while 65535 is
  committed. It also fails during bring-up, before the counter is loaded: the global
  starts at 0 whatever is committed (here 7).
\<close>

theorem counter_wrap_counterexample:
  "arduino_setup benv_ok (power_on 65535 Map.empty) = Some (ready 65535 Map.empty)
   \<and> unat (eeFlash (ready 65535 Map.empty)) = 65535
   \<and> unat (eeFlash (loop env_shot (ready 65535 Map.empty))) = 0
   \<and> unat (imageCtr (loop env_nofile (ready 65535 Map.empty))) = 0
   \<and> unat (eeFlash (loop env_nofile (ready 65535 Map.empty))) = 65535
   \<and> unat (imageCtr (bringup_camera benv_ok (power_on 7 Map.empty))) = 0
   \<and> unat (eeFlash (bringup_camera benv_ok (power_on 7 Map.empty))) = 7"
proof -
  have boot: "arduino_setup benv_ok (power_on 65535 Map.empty) = Some (ready 65535 Map.empty)"
    by (simp add: setup_ok benv_ok_def ready_def)
  have a: "clicked env_nofile" "fb env_nofile = Some demo_frame" "\<not> open_ok env_nofile"
    by (simp_all add: env_nofile_def env_null_def)
  have b: "clicked env_shot" "fb env_shot = Some demo_frame" "open_ok env_shot"
    by (simp_all add: env_shot_def env_null_def)
  show ?thesis
    using boot
    by (simp add: loop_nofile [OF a] loop_shot [OF b] idle_check_eeFlash ready_eq
        bringup_camera_eq power_on_def)
qed

subsection \<open>File names of consecutive captures\<close>

lemma digit_inj: "d < 10 \<Longrightarrow> d' < 10 \<Longrightarrow> digit d = digit d' \<Longrightarrow> d = d'"
  by (simp add: digit_def nth_eq_iff_index_eq)

lemma decimal_not_Nil: "decimal n \<noteq> []"
  by (subst decimal.simps) simp

lemma decimal_inj: "decimal n = decimal m \<Longrightarrow> n = m"
proof (induction n arbitrary: m rule: decimal.induct)
  case (1 n)
  show ?case
  proof (cases "n < 10")
    case True
    then have n: "decimal n = [digit n]"
      by (subst decimal.simps) simp
    show ?thesis
    proof (cases "m < 10")
      case mlt: True
      then have "decimal m = [digit m]"
        by (subst decimal.simps) simp
      with n "1.prems" True mlt show ?thesis
        by (simp add: digit_inj)
    next
      case False
      then have "decimal m = decimal (m div 10) @ [digit (m mod 10)]"
        by (subst decimal.simps) simp
      with n "1.prems" decimal_not_Nil [of "m div 10"] show ?thesis
        by simp
    qed
  next
    case False
    then have n: "decimal n = decimal (n div 10) @ [digit (n mod 10)]"
      by (subst decimal.simps) simp
    show ?thesis
    proof (cases "m < 10")
      case True
      then have "decimal m = [digit m]"
        by (subst decimal.simps) simp
      with n "1.prems" decimal_not_Nil [of "n div 10"] show ?thesis
        by simp
    next
      case mge: False
      then have "decimal m = decimal (m div 10) @ [digit (m mod 10)]"
        by (subst decimal.simps) simp
      with n "1.prems" have eq: "decimal (n div 10) = decimal (m div 10)"
          and dg: "digit (n mod 10) = digit (m mod 10)"
        by simp_all
      from eq have "n div 10 = m div 10"
        using False by (intro "1.IH") simp_all
      moreover from dg have "n mod 10 = m mod 10"
        by (intro digit_inj) simp_all
      ultimately show ?thesis
        by (metis div_mult_mod_eq)
    qed
  qed
qed

lemma image_path_inj: "image_path a = image_path b \<Longrightarrow> a = b"
proof -
  assume "image_path a = image_path b"
  then have "decimal (unat a) = decimal (unat b)"
    by (simp add: image_path_def)
  then have "unat a = unat b"
    by (rule decimal_inj)
  then show "a = b"
    by (simp add: word_unat_eq_iff)
qed

lemma image_names_Suc:
  "image_names c (Suc n) = image_names c n @ [image_path (c + of_nat (Suc n))]"
  by (simp add: image_names_def)

lemma length_image_names: "length (image_names c n) = n"
  by (simp add: image_names_def)

lemma mod_inj_range:
  "1 \<le> i \<Longrightarrow> i \<le> 65536 \<Longrightarrow> 1 \<le> j \<Longrightarrow> j \<le> 65536 \<Longrightarrow>
   i mod 65536 = j mod 65536 \<Longrightarrow> (i::nat) = j"
  by (cases "i = 65536"; cases "j = 65536") auto

lemma of_nat16_inj:
  assumes "1 \<le> i" "i \<le> 65536" "1 \<le> j" "j \<le> 65536"
    and "(of_nat i :: 16 word) = of_nat j"
  shows "i = j"
proof -
  from assms(5) have "i mod 65536 = j mod 65536"
    by (simp add: word_of_nat_eq_iff take_bit_eq_mod)
  with assms(1-4) show ?thesis
    by (rule mod_inj_range)
qed

lemma distinct_image_names: "n \<le> 65536 \<Longrightarrow> distinct (image_names c n)"
proof -
  assume n: "n \<le> 65536"
  have "inj_on (\<lambda>i. image_path (c + of_nat i)) (set [1..<n + 1])"
  proof (rule inj_onI)
    fix i j
    assume i: "i \<in> set [1..<n + 1]" and j: "j \<in> set [1..<n + 1]"
      and eq: "image_path (c + of_nat i) = image_path (c + of_nat j)"
    from eq have "c + of_nat i = c + of_nat j"
      by (rule image_path_inj)
    then have "(of_nat i :: 16 word) = of_nat j"
      by simp
    moreover from i j n have "1 \<le> i" "i \<le> 65536" "1 \<le> j" "j \<le> 65536"
      by auto
    ultimately show "i = j"
      by (intro of_nat16_inj)
  qed
  then show ?thesis
    by (simp add: image_names_def distinct_map)
qed

lemma unat16_add_of_nat:
  "unat (c::16 word) + m \<le> 65535 \<Longrightarrow> unat (c + of_nat m) = unat c + m"
  by (simp add: unat_word_ariths unat_of_nat)

lemma image_names_nat:
  "unat c + n \<le> 65535 \<Longrightarrow>
   image_names c n =
     map (\<lambda>k. ''/Image'' @ decimal k @ ''.jpg'') [unat c + 1 ..< unat c + n + 1]"
proof (induction n)
  case 0
  show ?case by (simp add: image_names_def)
next
  case (Suc n)
  then have ih: "image_names c n =
      map (\<lambda>k. ''/Image'' @ decimal k @ ''.jpg'') [unat c + 1 ..< unat c + n + 1]"
    by simp
  have "unat (c + of_nat (Suc n)) = unat c + Suc n"
    using Suc.prems by (rule unat16_add_of_nat)
  then have "image_path (c + of_nat (Suc n)) = ''/Image'' @ decimal (unat c + n + 1) @ ''.jpg''"
    by (simp add: image_path_def)
  then show ?case
    by (simp add: image_names_Suc ih)
qed

lemma run_snoc:
  "run (es @ [e]) s = (if phase (run es s) = Asleep then run es s else loop e (run es s))"
  by (simp add: run_append)

lemma running_prefix: "phase (run (xs @ ys) s) = Running \<Longrightarrow> phase (run xs s) = Running"
  by (cases "phase (run xs s)") (simp_all add: run_append run_asleep)

lemma running_butlast: "phase (run es s) = Running \<Longrightarrow> phase (run (butlast es) s) = Running"
proof (cases "es = []")
  case True
  then show "phase (run es s) = Running \<Longrightarrow> ?thesis" by simp
next
  case False
  then have "es = butlast es @ [last es]" by simp
  then show "phase (run es s) = Running \<Longrightarrow> ?thesis"
    by (metis running_prefix)
qed

lemma loop_shot_effects:
  assumes "clicked e" and "fb e = Some buf" and "open_ok e"
  shows "created_files (trace (loop e s)) = created_files (trace s) @ [image_path (imageCtr s + 1)]"
    and "imageCtr (loop e s) = imageCtr s + 1"
    and "sd (loop e s) = (sd s)(image_path (imageCtr s + 1) \<mapsto> take (written e) buf)"
  using assms
  by (simp_all add: loop_shot idle_check_fields created_files_idle_check created_files_append
      created_files_shot)

lemma run_shots:
  "\<forall>e \<in> set es. clicked e \<and> fb e \<noteq> None \<and> open_ok e \<Longrightarrow>
   phase (run (butlast es) s) = Running \<Longrightarrow>
   created_files (trace (run es s)) = created_files (trace s) @ image_names (imageCtr s) (length es)
   \<and> imageCtr (run es s) = imageCtr s + of_nat (length es)
   \<and> (\<forall>p. p \<notin> set (image_names (imageCtr s) (length es)) \<longrightarrow> sd (run es s) p = sd s p)
   \<and> (length es \<le> 65536 \<longrightarrow>
        (\<forall>i < length es. sd (run es s) (image_names (imageCtr s) (length es) ! i) =
            map_option (take (written (es ! i))) (fb (es ! i))))"
proof (induction es rule: rev_induct)
  case Nil
  show ?case by (simp add: image_names_def)
next
  case (snoc e es)
  let ?c = "imageCtr s" and ?n = "length es" and ?s' = "run es s"
  from snoc.prems(2) have awake: "phase ?s' = Running"
    by simp
  then have "phase (run (butlast es) s) = Running"
    by (rule running_butlast)
  with snoc.prems(1) have
    ih1: "created_files (trace ?s') = created_files (trace s) @ image_names ?c ?n" and
    ih2: "imageCtr ?s' = ?c + of_nat ?n" and
    ih3: "\<And>p. p \<notin> set (image_names ?c ?n) \<Longrightarrow> sd ?s' p = sd s p" and
    ih4: "\<And>i. ?n \<le> 65536 \<Longrightarrow> i < ?n \<Longrightarrow>
        sd ?s' (image_names ?c ?n ! i) = map_option (take (written (es ! i))) (fb (es ! i))"
    using snoc.IH by simp_all
  from snoc.prems(1) obtain buf where e: "clicked e" "fb e = Some buf" "open_ok e"
    by auto
  have run: "run (es @ [e]) s = loop e ?s'"
    using awake by (simp add: run_snoc)
  have new: "image_path (imageCtr ?s' + 1) = image_path (?c + of_nat (Suc ?n))"
    by (simp add: ih2 ac_simps)
  note eff = loop_shot_effects [OF e, of ?s']
  have c1: "created_files (trace (run (es @ [e]) s)) =
      created_files (trace s) @ image_names ?c (Suc ?n)"
    by (simp add: run eff(1) ih1 new image_names_Suc del: of_nat_Suc)
  have c2: "imageCtr (run (es @ [e]) s) = ?c + of_nat (Suc ?n)"
    by (simp add: run eff(2) ih2 ac_simps)
  have c3: "\<forall>p. p \<notin> set (image_names ?c (Suc ?n)) \<longrightarrow> sd (run (es @ [e]) s) p = sd s p"
    using ih3 by (simp add: run eff(3) new image_names_Suc del: of_nat_Suc)
  have c4: "Suc ?n \<le> 65536 \<longrightarrow>
      (\<forall>i < Suc ?n. sd (run (es @ [e]) s) (image_names ?c (Suc ?n) ! i) =
          map_option (take (written ((es @ [e]) ! i))) (fb ((es @ [e]) ! i)))"
  proof (intro impI allI)
    fix i
    assume len: "Suc ?n \<le> 65536" and i: "i < Suc ?n"
    from len have d: "distinct (image_names ?c (Suc ?n))"
      by (rule distinct_image_names)
    show "sd (run (es @ [e]) s) (image_names ?c (Suc ?n) ! i) =
        map_option (take (written ((es @ [e]) ! i))) (fb ((es @ [e]) ! i))"
    proof (cases "i < ?n")
      case True
      then have nth: "image_names ?c (Suc ?n) ! i = image_names ?c ?n ! i"
        by (simp add: image_names_Suc nth_append length_image_names del: of_nat_Suc)
      have "image_names ?c ?n ! i \<in> set (image_names ?c ?n)"
        using True by (simp add: length_image_names)
      with d have ne: "image_names ?c ?n ! i \<noteq> image_path (?c + of_nat (Suc ?n))"
        by (auto simp: image_names_Suc simp del: of_nat_Suc)
      have "sd (run (es @ [e]) s) (image_names ?c ?n ! i) = sd ?s' (image_names ?c ?n ! i)"
        using ne by (simp add: run eff(3) new del: of_nat_Suc)
      also have "\<dots> = map_option (take (written (es ! i))) (fb (es ! i))"
        using len True by (intro ih4) simp_all
      finally show ?thesis
        using True by (simp add: nth nth_append del: of_nat_Suc)
    next
      case False
      with i have "i = ?n" by simp
      then show ?thesis
        by (simp add: run eff(3) new image_names_Suc nth_append length_image_names e
            del: of_nat_Suc)
    qed
  qed
  show ?case
    using c1 c2 c3 c4 by (simp del: of_nat_Suc)
qed

text \<open>
  Claim C4, as amended. Let \<open>N\<close> captures in a row run to their end (each iteration has a
  click, a frame and a file that opens, and the device is still awake when the last one
  starts), from a state whose in-memory counter equals the committed counter \<open>C\<close>. Then
  the files created are exactly the paths for \<open>C + 1\<close>, \<open>C + 2\<close>, up to \<open>C + N\<close> in this
  order, the sums taken modulo \<open>2^16\<close>. If \<open>N\<close> is at most 65536 the paths are pairwise
  distinct and at the end each of them holds the bytes written by its own capture, so no
  capture of the run overwrites the file of another. If \<open>C + N\<close> is at most 65535 the
  paths are \<open>/Image(C+1).jpg\<close> to \<open>/Image(C+N).jpg\<close> in decimal. Every file of the card
  under another path is left as it was.
\<close>

theorem consecutive_captures_files:
  assumes "\<forall>e \<in> set es. clicked e \<and> fb e \<noteq> None \<and> open_ok e"
    and "phase (run (butlast es) s) = Running"
    and "imageCtr s = eeFlash s"
  shows "created_files (trace (run es s)) =
           created_files (trace s) @ image_names (eeFlash s) (length es)
       \<and> (length es \<le> 65536 \<longrightarrow>
            distinct (image_names (eeFlash s) (length es))
            \<and> (\<forall>i < length es. sd (run es s) (image_names (eeFlash s) (length es) ! i) =
                  map_option (take (written (es ! i))) (fb (es ! i))))
       \<and> (unat (eeFlash s) + length es \<le> 65535 \<longrightarrow>
            image_names (eeFlash s) (length es) =
              map (\<lambda>k. ''/Image'' @ decimal k @ ''.jpg'')
                [unat (eeFlash s) + 1 ..< unat (eeFlash s) + length es + 1])
       \<and> (\<forall>p. p \<notin> set (image_names (eeFlash s) (length es)) \<longrightarrow> sd (run es s) p = sd s p)"
  using run_shots [OF assms(1) assms(2)] assms(3)
  by (simp add: distinct_image_names image_names_nat)

theorem consecutive_captures_files_witness:
  "clicked env_shot \<and> fb env_shot \<noteq> None \<and> open_ok env_shot
   \<and> phase (run (butlast [env_shot, env_shot]) (ready 7 Map.empty)) = Running
   \<and> imageCtr (ready 7 Map.empty) = eeFlash (ready 7 Map.empty)
   \<and> created_files (trace (run [env_shot, env_shot] (ready 7 Map.empty))) =
        [''/Image8.jpg'', ''/Image9.jpg'']
   \<and> sd (run [env_shot, env_shot] (ready 7 Map.empty)) ''/Image8.jpg'' = Some demo_frame
   \<and> sd (run [env_shot, env_shot] (ready 7 Map.empty)) ''/Image7.jpg'' = None"
proof -
  let ?s = "ready 7 Map.empty"
  have e: "clicked env_shot" "fb env_shot = Some demo_frame" "open_ok env_shot"
    by (simp_all add: env_shot_def env_null_def)
  have awake: "\<not> AWAKE_MILLIS < millis_check env_shot - millis_click env_shot"
    by (simp add: env_shot_def env_null_def AWAKE_MILLIS_def)
  have h1: "\<forall>e \<in> set [env_shot, env_shot]. clicked e \<and> fb e \<noteq> None \<and> open_ok e"
    using e by simp
  have h2: "phase (run (butlast [env_shot, env_shot]) ?s) = Running"
    using awake by (simp add: loop_shot [OF e] idle_check_awake ready_eq)
  have h3: "imageCtr ?s = eeFlash ?s"
    by (simp add: ready_eq)
  have names: "image_names 7 (Suc (Suc 0)) = [''/Image8.jpg'', ''/Image9.jpg'']"
    by (simp add: image_names_def image_path_def decimal.simps digit_def)
  have init: "created_files (trace ?s) = []" "eeFlash ?s = 7" "sd ?s = Map.empty"
    "written env_shot = 4"
    by (simp_all add: ready_eq created_files_append created_files_flash_spec env_shot_def)
  let ?es = "[env_shot, env_shot]"
  note all = consecutive_captures_files [OF h1 h2 h3]
  have len: "length ?es \<le> 65536" "0 < length ?es"
    by simp_all
  from all have "created_files (trace (run ?es ?s)) =
      created_files (trace ?s) @ image_names (eeFlash ?s) (length ?es)"
    by (rule conjunct1)
  then have r1: "created_files (trace (run ?es ?s)) = [''/Image8.jpg'', ''/Image9.jpg'']"
    by (simp add: init names del: run.simps)
  from all len(1) have "\<forall>i < length ?es.
      sd (run ?es ?s) (image_names (eeFlash ?s) (length ?es) ! i) =
        map_option (take (written (?es ! i))) (fb (?es ! i))"
    by blast
  with len(2) have "sd (run ?es ?s) (image_names (eeFlash ?s) (length ?es) ! 0) =
        map_option (take (written (?es ! 0))) (fb (?es ! 0))"
    by blast
  then have f8: "sd (run ?es ?s) ''/Image8.jpg'' = Some demo_frame"
    by (simp add: names e init demo_frame_def del: run.simps)
  from all have "\<forall>p. p \<notin> set (image_names (eeFlash ?s) (length ?es)) \<longrightarrow>
      sd (run ?es ?s) p = sd ?s p"
    by blast
  then have f7: "sd (run ?es ?s) ''/Image7.jpg'' = None"
    by (simp add: names init del: run.simps)
  show ?thesis
    using e h2 h3 r1 f8 f7 by (simp del: run.simps)
qed

text \<open>
  Claim C4 as stated fails at \<open>C = 65535\<close> and \<open>N = 1\<close> on a card that already holds
  \<open>/Image0.jpg\<close>: the capture creates \<open>/Image0.jpg\<close>, not \<open>/Image65536.jpg\<close>, and the
  file that was there is replaced by the new frame.
\<close>

theorem image_names_counterexample:
  "imageCtr (ready 65535 demo_card) = 65535
   \<and> eeFlash (ready 65535 demo_card) = 65535
   \<and> sd (ready 65535 demo_card) ''/Image0.jpg'' = Some [1, 2, 3]
   \<and> created_files (trace (run [env_shot] (ready 65535 demo_card))) = [''/Image0.jpg'']
   \<and> created_files (trace (run [env_shot] (ready 65535 demo_card))) \<noteq> [''/Image65536.jpg'']
   \<and> sd (run [env_shot] (ready 65535 demo_card)) ''/Image0.jpg'' = Some [255, 216, 255, 217]"
proof -
  let ?s = "ready 65535 demo_card"
  have e: "clicked env_shot" "fb env_shot = Some demo_frame" "open_ok env_shot"
    by (simp_all add: env_shot_def env_null_def)
  have run: "run [env_shot] ?s = loop env_shot ?s"
    by (simp add: ready_eq)
  have c: "imageCtr ?s + 1 = 0"
    by (simp add: ready_eq)
  note eff = loop_shot_effects [OF e, of ?s]
  have "created_files (trace ?s) = []"
    by (simp add: ready_eq created_files_append created_files_flash_spec)
  then have files: "created_files (trace (run [env_shot] ?s)) = [''/Image0.jpg'']"
    by (simp add: run eff(1) c image_path_0 del: run.simps)
  have w: "written env_shot = 4"
    by (simp add: env_shot_def)
  have card: "sd (run [env_shot] ?s) ''/Image0.jpg'' = Some [255, 216, 255, 217]"
    by (simp add: run eff(3) c image_path_0 w demo_frame_def del: run.simps)
  show ?thesis
    using files card by (simp add: ready_eq demo_card_def del: run.simps)
qed

end
